theory Spec2Isabelle
  imports Main
begin

section \<open>Values of the host language\<close>

text \<open>
  The client is written in TypeScript. A \<open>number\<close> that only ever holds an array length
  or an array index is a natural number, except that the remainder by zero is \<open>NaN\<close>;
  a property read on \<open>undefined\<close> raises \<open>TypeError\<close>; a request to a node that fails
  rejects its promise with an error of the external library.
\<close>

datatype number = Num nat | NaN

datatype js_error = TypeError | Rejection string

text \<open>\<open>(n + 1) % size\<close> on numbers, \<open>size\<close> being an array length.\<close>

fun succ_mod :: "number \<Rightarrow> nat \<Rightarrow> number" where
  "succ_mod NaN size_n = NaN"
| "succ_mod (Num n) size_n = (if size_n = 0 then NaN else Num ((n + 1) mod size_n))"

text \<open>\<open>xs[i]\<close>: an index that is \<open>NaN\<close> or past the end reads \<open>undefined\<close>.\<close>

fun js_index :: "'a list \<Rightarrow> number \<Rightarrow> 'a option" where
  "js_index xs NaN = None"
| "js_index xs (Num k) = (if k < length xs then Some (xs ! k) else None)"

section \<open>DbClient\<close>

text \<open>
  A worker session of the external library: the node it talks to (read by \<open>status\<close>) and
  the session that carries requests (read by \<open>submitQuery\<close>). Both are opaque here.
\<close>

record ('n, 's) workerSession =
  node :: 'n
  session :: 's

record ('n, 's) AppSession =
  workerSessions :: "('n, 's) workerSession list"

text \<open>
  The fields of class \<open>DbClient\<close>. The field \<open>size\<close> of the source is \<open>size_n\<close> here.
\<close>

record ('n, 's) DbClient =
  appSession :: "('n, 's) AppSession"
  size_n :: nat
  counter :: number

text \<open>The constructor.\<close>

definition new_DbClient :: "('n, 's) AppSession \<Rightarrow> ('n, 's) DbClient" where
  "new_DbClient sess =
     \<lparr> appSession = sess, size_n = length (workerSessions sess), counter = Num 0 \<rparr>"

text \<open>
  \<open>nextNodeIndex\<close> stores the advanced counter and returns it: the pair is the returned
  index and the client after the call.
\<close>

definition nextNodeIndex :: "('n, 's) DbClient \<Rightarrow> number \<times> ('n, 's) DbClient" where
  "nextNodeIndex c =
     (let k = succ_mod (counter c) (size_n c) in (k, c\<lparr>counter := k\<rparr>))"

text \<open>
  The pending result of \<open>workerSession.session.invoke(q).result()\<close>: the promise of the
  answer of one session to one query. It is named by the session and the query.
\<close>

datatype 's pending = Invoke 's string

text \<open>
  \<open>submitQuery\<close> picks the worker session once, then maps over the queries. When the
  picked session is \<open>undefined\<close>, reading \<open>workerSession.session\<close> raises at the first query,
  so the call rejects unless the list is empty. The body has no \<open>await\<close>: it runs to its
  end when called. The line written to the console and the promise derived by
  \<open>res.then\<close>, which nothing reads, are left out.
\<close>

definition submitQuery ::
  "string list \<Rightarrow> ('n, 's) DbClient \<Rightarrow> (js_error + 's pending list) \<times> ('n, 's) DbClient" where
  "submitQuery queries c =
     (let (k, c') = nextNodeIndex c;
          workerSession = js_index (workerSessions (appSession c')) k
      in (case workerSession of
            Some w \<Rightarrow> Inr (map (\<lambda>q. Invoke (session w) q) queries)
          | None \<Rightarrow> (if queries = [] then Inr [] else Inl TypeError),
          c'))"

text \<open>The client after a sequence of \<open>submitQuery\<close> calls, one per batch, in order.\<close>

definition after_calls :: "string list list \<Rightarrow> ('n, 's) DbClient \<Rightarrow> ('n, 's) DbClient" where
  "after_calls batches c = fold (\<lambda>queries c'. snd (submitQuery queries c')) batches c"

text \<open>
  \<open>submitQuery\<close> of the other version of the file, which has no counter: every query
  goes to \<open>appSession.request\<close> of the library, which does the routing.
\<close>

datatype request = Request string

definition submitQuery_request :: "string list \<Rightarrow> request list" where
  "submitQuery_request queries = map (\<lambda>q. Request q) queries"

text \<open>
  A client whose \<open>size\<close> is the number of its worker sessions and whose counter is an
  index into them.
\<close>

definition client_ok :: "('n, 's) DbClient \<Rightarrow> bool" where
  "client_ok c =
     (size_n c = length (workerSessions (appSession c)) \<and>
      (case counter c of NaN \<Rightarrow> False | Num k \<Rightarrow> k < size_n c))"

text \<open>A cluster of three nodes \<open>A\<close>, \<open>B\<close>, \<open>C\<close>, for the scenarios.\<close>

definition abc :: "(string, string) AppSession" where
  "abc = \<lparr> workerSessions =
             [\<lparr> node = ''A'', session = ''sA'' \<rparr>,
              \<lparr> node = ''B'', session = ''sB'' \<rparr>,
              \<lparr> node = ''C'', session = ''sC'' \<rparr>] \<rparr>"

section \<open>Promises and the status of all nodes\<close>

text \<open>
  A promise of the host language, as far as this program observes it: still pending, or
  settled at some instant, fulfilled with a value or rejected with an error. The instant
  orders the settlements of different promises.
\<close>

datatype ('e, 'a) promise = Pending | Fulfilled nat 'a | Rejected nat 'e

text \<open>
  \<open>Promise.all\<close>: rejected as soon as one input is rejected, with the error of the input
  rejected first (the earlier position decides between equal instants); fulfilled,
  once every input is, with the values in the order of the inputs; pending otherwise.
\<close>

fun first_rejected :: "('e, 'a) promise list \<Rightarrow> (nat \<times> 'e) option" where
  "first_rejected [] = None"
| "first_rejected (Rejected t e # ps) =
     (case first_rejected ps of
        None \<Rightarrow> Some (t, e)
      | Some (t', e') \<Rightarrow> (if t' < t then Some (t', e') else Some (t, e)))"
| "first_rejected (Fulfilled t v # ps) = first_rejected ps"
| "first_rejected (Pending # ps) = first_rejected ps"

fun all_fulfilled :: "('e, 'a) promise list \<Rightarrow> (nat \<times> 'a list) option" where
  "all_fulfilled [] = Some (0, [])"
| "all_fulfilled (Fulfilled t v # ps) =
     (case all_fulfilled ps of
        None \<Rightarrow> None
      | Some (t', vs) \<Rightarrow> Some (max t t', v # vs))"
| "all_fulfilled (Rejected t e # ps) = None"
| "all_fulfilled (Pending # ps) = None"

definition promise_all :: "('e, 'a) promise list \<Rightarrow> ('e, 'a list) promise" where
  "promise_all ps =
     (case first_rejected ps of
        Some (t, e) \<Rightarrow> Rejected t e
      | None \<Rightarrow> (case all_fulfilled ps of
                   Some (t, vs) \<Rightarrow> Fulfilled t vs
                 | None \<Rightarrow> Pending))"

text \<open>
  The payload of one node's status answer, with the fields the page reads. The field
  \<open>result\<close> is absent when the node answered with something else than a status.
\<close>

record node_info =
  listen_addr :: string

record sync_info =
  latest_block_hash :: string
  latest_app_hash :: string
  latest_block_height :: nat

record info =
  node_info :: node_info
  sync_info :: sync_info

record resp =
  result :: "info option"

text \<open>
  \<open>status\<close> of \<open>index.ts\<close>. The request to one node is \<open>monitoring.getWorkerStatus\<close> of the
  external library, a parameter here; it receives the node and the application id (the
  \<open>parseInt\<close> of the id is part of the parameter). The other version of the file hands
  the whole call to \<open>appSession.getWorkersStatus()\<close> of the library and is not modelled.
\<close>

definition status ::
  "('n \<Rightarrow> string \<Rightarrow> (js_error, resp) promise) \<Rightarrow> string \<Rightarrow> ('n, 's) DbClient
     \<Rightarrow> (js_error, resp list) promise" where
  "status getWorkerStatus appId c =
     promise_all (map (\<lambda>session. getWorkerStatus (node session) appId)
                      (workerSessions (appSession c)))"

section \<open>Rendering\<close>

record Status =
  addr :: string
  block_hash :: string
  app_hash :: string
  block_height :: nat

definition lf :: string where
  "lf = [CHR 0x0A]"

text \<open>A block height inside a template: the decimal digits of the number.\<close>

definition digit :: "nat \<Rightarrow> char" where
  "digit d = char_of (48 + d)"

function show_nat :: "nat \<Rightarrow> string" where
  "show_nat n = (if n < 10 then [digit n] else show_nat (n div 10) @ [digit (n mod 10)])"
  by pat_completeness auto
termination
  by (relation "measure id") auto

definition genStatus :: "Status \<Rightarrow> string" where
  \<open>genStatus status' =
     ''<div class="m-2 rounded border list-group-item-info p-2">'' @ lf @
     ''                <label class="text-dark ml-2 mb-0" style="font-size: 0.8rem">'' @
       addr status' @ ''</label>'' @ lf @
     ''                <ul class="list-unstyled mb-0 ml-4" style="font-size: 0.7rem">'' @ lf @
     ''                    <li>height: '' @ show_nat (block_height status') @ ''</li>'' @ lf @
     ''                    <li>block_hash: '' @ block_hash status' @ ''</li>'' @ lf @
     ''                    <li>app_hash: '' @ app_hash status' @ ''</li>'' @ lf @
     ''                </ul>'' @ lf @
     ''            </div>''\<close>

definition genErrorStatus :: "string \<Rightarrow> string \<Rightarrow> string" where
  \<open>genErrorStatus addr' error =
     ''<div class="m-2 rounded border list-group-item-info p-2">'' @ lf @
     ''                <label class="text-dark ml-2 mb-0" style="font-size: 0.8rem">'' @
       addr' @ ''</label>'' @ lf @
     ''                <ul class="list-unstyled mb-0 ml-4" style="font-size: 0.7rem">'' @ lf @
     ''                    <li>error: '' @ error @ ''</li>'' @ lf @
     ''                </ul>'' @ lf @
     ''            </div>''\<close>

text \<open>
  \<open>shorten\<close>: \<open>substring\<close> clamps a negative start to zero, as the subtraction on \<open>nat\<close>
  does.
\<close>

definition shorten :: "string \<Rightarrow> nat \<Rightarrow> string" where
  "shorten str n = take n str @ ''...'' @ drop (length str - n) str"

definition newLine :: string where
  "newLine = [CHR 0x0D, CHR 0x0A]"

definition sep :: string where
  "sep = ''**************************''"

text \<open>\<open>Array.prototype.join\<close> and \<open>String.prototype.split\<close> with a separator character.\<close>

fun join :: "string \<Rightarrow> string list \<Rightarrow> string" where
  "join s [] = []"
| "join s [x] = x"
| "join s (x # y # ys) = x @ s @ join s (y # ys)"

fun split :: "char \<Rightarrow> string \<Rightarrow> string list" where
  "split c [] = [] # []"
| "split c (x # xs) =
     (if x = c then [] # split c xs
      else (case split c xs of
              [] \<Rightarrow> [x] # []
            | y # ys \<Rightarrow> (x # y) # ys))"

text \<open>
  \<open>String.prototype.replace\<close> with a string pattern: the first occurrence only.
\<close>

fun replace_first :: "string \<Rightarrow> string \<Rightarrow> string \<Rightarrow> string" where
  "replace_first pat rep [] = (if pat = [] then rep else [])"
| "replace_first pat rep (x # xs) =
     (if take (length pat) (x # xs) = pat then rep @ drop (length pat) (x # xs)
      else x # replace_first pat rep xs)"

text \<open>
  The callback that \<open>updateStatus\<close> maps over the answers: it raises \<open>TypeError\<close> when
  \<open>resp.result\<close> is absent, and the \<open>map\<close> stops at the first answer that raises.
\<close>

definition status_block :: "resp \<Rightarrow> js_error + string" where
  "status_block resp' =
     (case result resp' of
        None \<Rightarrow> Inl TypeError
      | Some info' \<Rightarrow>
          Inr (genStatus
            \<lparr> addr = listen_addr (node_info info'),
              block_hash = shorten (latest_block_hash (sync_info info')) 10,
              app_hash = shorten (latest_app_hash (sync_info info')) 10,
              block_height = latest_block_height (sync_info info') \<rparr>))"

fun map_raising :: "('a \<Rightarrow> 'e + 'b) \<Rightarrow> 'a list \<Rightarrow> 'e + 'b list" where
  "map_raising f [] = Inr []"
| "map_raising f (x # xs) =
     (case f x of
        Inl e \<Rightarrow> Inl e
      | Inr y \<Rightarrow> (case map_raising f xs of Inl e \<Rightarrow> Inl e | Inr ys \<Rightarrow> Inr (y # ys)))"

text \<open>What \<open>${error}\<close> prints for an error.\<close>

fun error_text :: "js_error \<Rightarrow> string" where
  "error_text TypeError = ''TypeError''"
| "error_text (Rejection msg) = msg"

section \<open>The page\<close>

text \<open>
  The elements of the document that the handlers read and write, each as the string it
  holds: the \<open>innerHTML\<close> of the status panel and the \<open>value\<close> of the result panel, of the
  query input and of the polling button. Their first contents come from the document,
  which is not part of the program.
\<close>

record dom =
  statusField :: string
  resultField :: string
  inputField :: string
  updateStatusBtn :: string

text \<open>
  The state of the page after \<open>preparePage\<close>: the document, the variables of the program
  (\<open>client\<close>, \<open>updating\<close>, \<open>timer\<close>) and what the browser holds for it: the interval timers
  that are armed and the next timer id; the number of \<open>status\<close> calls that have not
  settled; the result promises that have a callback of \<open>submitQueries\<close> attached and
  have not settled. \<open>status_calls\<close> counts every call of \<open>client.status\<close> made so far.
\<close>

record ('n, 's) page = dom +
  client :: "('n, 's) DbClient"
  updating :: bool
  timer :: nat
  intervals :: "nat list"
  next_id :: nat
  polls :: nat
  status_calls :: nat
  results :: "'s pending list"

definition setInterval :: "('n, 's) page \<Rightarrow> nat \<times> ('n, 's) page" where
  "setInterval s =
     (next_id s, s\<lparr>intervals := next_id s # intervals s, next_id := Suc (next_id s)\<rparr>)"

definition clearInterval :: "nat \<Rightarrow> ('n, 's) page \<Rightarrow> ('n, 's) page" where
  "clearInterval t s = s\<lparr>intervals := removeAll t (intervals s)\<rparr>"

text \<open>
  \<open>preparePage\<close>, from the answer of \<open>fluence.connect\<close> on: it builds the client and arms
  the first timer, whose id it keeps in \<open>timer\<close>. \<open>updating\<close> has its initial value
  \<open>false\<close>; no other timer is armed, no poll and no result is outstanding.
\<close>

definition preparePage :: "('n, 's) AppSession \<Rightarrow> dom \<Rightarrow> ('n, 's) page" where
  "preparePage sessions d =
     (let s0 = \<lparr> statusField = statusField d, resultField = resultField d,
                 inputField = inputField d, updateStatusBtn = updateStatusBtn d,
                 client = new_DbClient sessions, updating = False, timer = 0,
                 intervals = [], next_id = 1, polls = 0, status_calls = 0, results = [] \<rparr>;
          (t, s1) = setInterval s0
      in s1\<lparr>timer := t\<rparr>)"

subsection \<open>Polling\<close>

text \<open>\<open>updateStatus\<close>, up to the call of \<open>client.status\<close>.\<close>

definition updateStatus :: "('n, 's) page \<Rightarrow> ('n, 's) page" where
  "updateStatus s =
     (if updating s then s
      else s\<lparr>updating := True, polls := Suc (polls s), status_calls := Suc (status_calls s)\<rparr>)"

text \<open>
  The three callbacks chained on the promise of \<open>client.status\<close>. The first writes the
  panel, or raises; the second receives a rejection of \<open>status\<close> or what the first
  raised, builds an error block and returns it to nobody; the third clears the flag.
\<close>

definition status_then :: "resp list \<Rightarrow> ('n, 's) page \<Rightarrow> js_error + ('n, 's) page" where
  "status_then r s =
     (case map_raising status_block r of
        Inl e \<Rightarrow> Inl e
      | Inr blocks \<Rightarrow> Inr (s\<lparr>statusField := join lf blocks\<rparr>))"

definition status_catch :: "js_error \<Rightarrow> ('n, 's) page \<Rightarrow> ('n, 's) page" where
  "status_catch e s = (let block = genErrorStatus [] (error_text e) in s)"

definition status_finally :: "('n, 's) page \<Rightarrow> ('n, 's) page" where
  "status_finally s = s\<lparr>updating := False\<rparr>"

text \<open>
  A \<open>status\<close> call settles with \<open>Inr\<close> the answers or \<open>Inl\<close> the error, and the chain
  runs. Without an outstanding call there is nothing to settle.
\<close>

definition status_settled :: "js_error + resp list \<Rightarrow> ('n, 's) page \<Rightarrow> ('n, 's) page" where
  "status_settled outcome s =
     (if polls s = 0 then s
      else
        (let s0 = s\<lparr>polls := polls s - 1\<rparr>;
             s1 = (case outcome of
                     Inl e \<Rightarrow> status_catch e s0
                   | Inr r \<Rightarrow> (case status_then r s0 of
                                Inl e \<Rightarrow> status_catch e s0
                              | Inr s' \<Rightarrow> s'))
         in status_finally s1))"

text \<open>The listener of the polling button.\<close>

definition stop :: string where
  "stop = ''Stop update status''"

definition start :: string where
  "start = ''Start update status''"

definition click_updateStatusBtn :: "('n, 's) page \<Rightarrow> ('n, 's) page" where
  "click_updateStatusBtn s =
     (if updateStatusBtn s = stop
      then (clearInterval (timer s) s)\<lparr>updateStatusBtn := start\<rparr>
      else (let (t, s') = setInterval s in s'\<lparr>timer := t, updateStatusBtn := stop\<rparr>))"

subsection \<open>Submitting queries\<close>

text \<open>
  \<open>submitQueries\<close>: the panel is emptied, the lines go to \<open>submitQuery\<close>, and the callback
  is attached to every promise returned. When \<open>submitQuery\<close> rejects nothing is attached.
\<close>

definition submitQueries :: "string \<Rightarrow> ('n, 's) page \<Rightarrow> ('n, 's) page" where
  "submitQueries queries s =
     (let s0 = s\<lparr>resultField := []\<rparr>;
          (res, c') = submitQuery (split (CHR 0x0A) queries) (client s0)
      in (case res of
            Inl e \<Rightarrow> s0\<lparr>client := c'\<rparr>
          | Inr prs \<Rightarrow> s0\<lparr>client := c', results := results s0 @ prs\<rparr>))"

text \<open>The listener of the submit button.\<close>

definition click_btn :: "('n, 's) page \<Rightarrow> ('n, 's) page" where
  "click_btn s =
     (if length (inputField s) \<noteq> 0
      then (submitQueries (inputField s) s)\<lparr>inputField := []\<rparr>
      else s)"

text \<open>
  The callback attached to a result: \<open>r\<close> is the text \<open>r.asString()\<close> of the result; the
  pattern of the replacement is a backslash followed by the letter n.
\<close>

definition result_then :: "string \<Rightarrow> ('n, 's) page \<Rightarrow> ('n, 's) page" where
  "result_then r s =
     (let strRes = replace_first [CHR 0x5C, CHR ''n''] newLine r
      in s\<lparr>resultField := resultField s @ sep @ newLine @ strRes @ newLine @ sep\<rparr>)"

text \<open>
  The promise at position \<open>k\<close> of the outstanding results settles: fulfilled, its
  callback runs; rejected, nothing is attached for that.
\<close>

definition result_settled :: "nat \<Rightarrow> js_error + string \<Rightarrow> ('n, 's) page \<Rightarrow> ('n, 's) page" where
  "result_settled k outcome s =
     (if k < length (results s)
      then (let s0 = s\<lparr>results := take k (results s) @ drop (Suc k) (results s)\<rparr>
            in (case outcome of Inl e \<Rightarrow> s0 | Inr r \<Rightarrow> result_then r s0))
      else s)"

subsection \<open>The event loop\<close>

text \<open>
  What can happen to the page, one event at a time: the timer with a given id fires (an
  id that is not armed fires nothing), a \<open>status\<close> call settles, the user edits the
  query input, clicks the submit button or the polling button, a result settles.
\<close>

datatype event =
    Tick nat
  | StatusSettled "js_error + resp list"
  | Typed string
  | ClickSubmit
  | ResultSettled nat "js_error + string"
  | ClickToggle

fun step :: "event \<Rightarrow> ('n, 's) page \<Rightarrow> ('n, 's) page" where
  "step (Tick t) s = (if t \<in> set (intervals s) then updateStatus s else s)"
| "step (StatusSettled outcome) s = status_settled outcome s"
| "step (Typed v) s = s\<lparr>inputField := v\<rparr>"
| "step ClickSubmit s = click_btn s"
| "step (ResultSettled k outcome) s = result_settled k outcome s"
| "step ClickToggle s = click_updateStatusBtn s"

definition run :: "event list \<Rightarrow> ('n, 's) page \<Rightarrow> ('n, 's) page" where
  "run es s = fold step es s"

fun is_toggle :: "event \<Rightarrow> bool" where
  "is_toggle ClickToggle = True"
| "is_toggle e = False"

fun is_tick :: "event \<Rightarrow> bool" where
  "is_tick (Tick t) = True"
| "is_tick e = False"

fun is_status_settled :: "event \<Rightarrow> bool" where
  "is_status_settled (StatusSettled outcome) = True"
| "is_status_settled e = False"

text \<open>
  The polling button and the timers agree: the button offers to stop and the timer in
  \<open>timer\<close> is the only one armed, or it offers something else and no timer is armed.
\<close>

definition timer_ok :: "('n, 's) page \<Rightarrow> bool" where
  "timer_ok s =
     (if updateStatusBtn s = stop then intervals s = [timer s] else intervals s = [])"

subsection \<open>Scenarios\<close>

text \<open>
  A document whose polling button offers to stop, and status requests to the nodes \<open>A\<close>,
  \<open>B\<close>, \<open>C\<close>: all three answer, or \<open>B\<close> fails at instant 2 while \<open>A\<close> and \<open>C\<close> answer at
  instants 1 and 3.
\<close>

definition doc0 :: dom where
  "doc0 = \<lparr> statusField = ''connecting'', resultField = ''old'', inputField = [],
            updateStatusBtn = stop \<rparr>"

definition answer :: "string \<Rightarrow> resp" where
  "answer n =
     \<lparr> result = Some
         \<lparr> node_info = \<lparr> listen_addr = n \<rparr>,
           sync_info = \<lparr> latest_block_hash = ''0123456789ABCDEF0123456789ABCDEF'',
                         latest_app_hash = ''AB'',
                         latest_block_height = 42 \<rparr> \<rparr> \<rparr>"

definition all_up :: "string \<Rightarrow> string \<Rightarrow> (js_error, resp) promise" where
  "all_up n appId = Fulfilled (if n = ''A'' then 1 else 3) (answer n)"

definition b_down :: "string \<Rightarrow> string \<Rightarrow> (js_error, resp) promise" where
  "b_down n appId =
     (if n = ''B'' then Rejected 2 (Rejection ''unreachable'')
      else Fulfilled (if n = ''A'' then 1 else 3) (answer n))"

section \<open>Round robin\<close>

lemma after_calls_Nil: "after_calls [] c = c"
  by (simp add: after_calls_def)

lemma after_calls_snoc:
  "after_calls (batches @ [queries]) c = snd (submitQuery queries (after_calls batches c))"
  by (simp add: after_calls_def)

lemma submitQuery_client: "snd (submitQuery queries c) = snd (nextNodeIndex c)"
  by (simp add: submitQuery_def split: prod.splits)

lemma nextNodeIndex_fields:
  "appSession (snd (nextNodeIndex c)) = appSession c"
  "size_n (snd (nextNodeIndex c)) = size_n c"
  "counter (snd (nextNodeIndex c)) = succ_mod (counter c) (size_n c)"
  "fst (nextNodeIndex c) = succ_mod (counter c) (size_n c)"
  by (simp_all add: nextNodeIndex_def Let_def)

lemma after_calls_frame:
  "appSession (after_calls batches c) = appSession c \<and>
   size_n (after_calls batches c) = size_n c"
  by (induction batches rule: rev_induct)
     (simp_all add: after_calls_Nil after_calls_snoc submitQuery_client nextNodeIndex_fields)

lemma counter_after_calls:
  assumes "k < size_n c" and "counter c = Num k"
  shows "counter (after_calls batches c) = Num ((k + length batches) mod size_n c)"
  using assms
proof (induction batches rule: rev_induct)
  case Nil
  then show ?case by (simp add: after_calls_Nil)
next
  case (snoc queries batches)
  have sz: "size_n (after_calls batches c) = size_n c"
    by (simp add: after_calls_frame)
  from snoc have "counter (after_calls batches c) = Num ((k + length batches) mod size_n c)"
    by simp
  then have "counter (after_calls (batches @ [queries]) c)
      = Num ((k + length batches + 1) mod size_n c)"
    using snoc.prems(1)
    by (simp add: after_calls_snoc submitQuery_client nextNodeIndex_fields sz mod_simps)
  then show ?case by (simp add: add.assoc)
qed

lemma new_DbClient_fields:
  "appSession (new_DbClient sess) = sess"
  "size_n (new_DbClient sess) = length (workerSessions sess)"
  "counter (new_DbClient sess) = Num 0"
  by (simp_all add: new_DbClient_def)

lemma counter_after_new:
  assumes "workerSessions sess \<noteq> []"
  shows "counter (after_calls batches (new_DbClient sess))
         = Num (length batches mod length (workerSessions sess))"
  using counter_after_calls [of 0 "new_DbClient sess" batches] assms
  by (simp add: new_DbClient_fields)

lemma submitQuery_routes:
  assumes "size_n c = length (workerSessions (appSession c))"
    and "counter c = Num k" and "0 < size_n c"
  shows "submitQuery queries c =
    (Inr (map (Invoke (session (workerSessions (appSession c) ! ((k + 1) mod size_n c)))) queries),
     c\<lparr>counter := Num ((k + 1) mod size_n c)\<rparr>)"
  using assms by (simp add: submitQuery_def nextNodeIndex_def Let_def)

text \<open>
  C1, as the specification states it: the call number \<open>i\<close>, counted from zero, selects the
  node \<open>i mod S\<close>, so that three calls on the nodes \<open>A\<close>, \<open>B\<close>, \<open>C\<close> go to \<open>A\<close>, \<open>B\<close>, \<open>C\<close>. The
  code advances the counter before it reads it: on these three nodes the first call
  selects index 1 and goes to \<open>B\<close>, and the three calls go to \<open>B\<close>, \<open>C\<close>, \<open>A\<close>.
\<close>

theorem first_call_selects_second_node:
  "fst (nextNodeIndex (after_calls [] (new_DbClient abc))) \<noteq> Num (0 mod 3) \<and>
   fst (submitQuery [''q1''] (new_DbClient abc)) = Inr [Invoke ''sB'' ''q1''] \<and>
   fst (submitQuery [''q1''] (after_calls [ [''q1''] ] (new_DbClient abc)))
     = Inr [Invoke ''sC'' ''q1''] \<and>
   fst (submitQuery [''q1''] (after_calls [ [''q1''], [''q1''] ] (new_DbClient abc)))
     = Inr [Invoke ''sA'' ''q1'']"
  by (simp add: after_calls_def submitQuery_def nextNodeIndex_def new_DbClient_def abc_def
        Let_def)

text \<open>
  C1, amended: on a client built from \<open>S \<ge> 1\<close> worker sessions, the call number \<open>i\<close>,
  counted from zero, selects the node \<open>(i + 1) mod S\<close> and sends its whole batch to the
  session of that node.
\<close>

theorem round_robin_selects_successor:
  assumes "workerSessions sess \<noteq> []"
  shows "fst (nextNodeIndex (after_calls batches (new_DbClient sess)))
           = Num ((length batches + 1) mod length (workerSessions sess)) \<and>
         fst (submitQuery queries (after_calls batches (new_DbClient sess)))
           = Inr (map (Invoke (session (workerSessions sess !
                    ((length batches + 1) mod length (workerSessions sess))))) queries)"
proof -
  let ?c = "after_calls batches (new_DbClient sess)"
  let ?S = "length (workerSessions sess)"
  have S: "0 < ?S" using assms by simp
  have frame: "appSession ?c = sess" "size_n ?c = ?S"
    by (simp_all add: after_calls_frame new_DbClient_fields)
  have cnt: "counter ?c = Num (length batches mod ?S)"
    by (rule counter_after_new [OF assms])
  have idx: "Suc (length batches mod ?S) mod ?S = Suc (length batches) mod ?S"
    by (rule mod_Suc_eq)
  have "fst (nextNodeIndex ?c) = Num ((length batches + 1) mod ?S)"
    using S by (simp add: nextNodeIndex_fields frame cnt idx)
  moreover have "fst (submitQuery queries ?c)
      = Inr (map (Invoke (session (workerSessions sess ! ((length batches + 1) mod ?S)))) queries)"
    using submitQuery_routes [of ?c "length batches mod ?S" queries] S
    by (simp add: frame cnt idx)
  ultimately show ?thesis by simp
qed

theorem round_robin_selects_successor_witness:
  "workerSessions abc \<noteq> [] \<and>
   fst (nextNodeIndex (after_calls [ [''q1''], [''q2''] ] (new_DbClient abc))) = Num 0 \<and>
   fst (submitQuery [''q3'', ''q4''] (after_calls [ [''q1''], [''q2''] ] (new_DbClient abc)))
     = Inr [Invoke ''sA'' ''q3'', Invoke ''sA'' ''q4'']"
proof -
  have ne: "workerSessions abc \<noteq> []" by (simp add: abc_def)
  show ?thesis
    using ne round_robin_selects_successor
            [OF ne, of "[ [''q1''], [''q2''] ]" "[''q3'', ''q4'']"]
    by (simp add: abc_def)
qed

text \<open>
  C5: on a client whose counter is an index into its worker sessions, one call of
  \<open>submitQuery\<close> advances the counter once, whatever the number of queries; every query
  of the batch is invoked on the one session that the advanced counter selects; the
  pending results are as many as the queries and in their order. The version of the
  file without a counter also returns one pending result per query, in order.
\<close>

theorem submitQuery_one_advance_one_node:
  assumes "client_ok c"
  shows "\<exists>k w prs.
           counter c = Num k \<and>
           js_index (workerSessions (appSession c)) (Num ((k + 1) mod size_n c)) = Some w \<and>
           submitQuery queries c = (Inr prs, c\<lparr>counter := Num ((k + 1) mod size_n c)\<rparr>) \<and>
           length prs = length queries \<and>
           (\<forall>i < length queries. prs ! i = Invoke (session w) (queries ! i)) \<and>
           length (submitQuery_request queries) = length queries \<and>
           (\<forall>i < length queries. submitQuery_request queries ! i = Request (queries ! i))"
proof -
  from assms obtain k where k: "counter c = Num k" "k < size_n c"
    and sz: "size_n c = length (workerSessions (appSession c))"
    by (auto simp: client_ok_def split: number.splits)
  let ?j = "(k + 1) mod size_n c"
  let ?w = "workerSessions (appSession c) ! ?j"
  have pos: "0 < size_n c" using k by simp
  then have j: "?j < length (workerSessions (appSession c))"
    using sz by simp
  have sub: "submitQuery queries c =
      (Inr (map (Invoke (session ?w)) queries), c\<lparr>counter := Num ?j\<rparr>)"
    by (rule submitQuery_routes [OF sz k(1) pos])
  have "js_index (workerSessions (appSession c)) (Num ?j) = Some ?w"
    using j by simp
  with k(1) sub show ?thesis
    by (simp add: submitQuery_request_def)
qed

theorem submitQuery_one_advance_one_node_witness:
  "client_ok (new_DbClient abc) \<and>
   submitQuery [''q1'', ''q2'', ''q3''] (new_DbClient abc)
     = (Inr [Invoke ''sB'' ''q1'', Invoke ''sB'' ''q2'', Invoke ''sB'' ''q3''],
        (new_DbClient abc)\<lparr>counter := Num 1\<rparr>)"
proof -
  have ok: "client_ok (new_DbClient abc)"
    by (simp add: client_ok_def new_DbClient_def abc_def)
  show ?thesis
    using ok submitQuery_one_advance_one_node [OF ok, of "[''q1'', ''q2'', ''q3'']"]
    by (simp add: submitQuery_def nextNodeIndex_def new_DbClient_def abc_def Let_def)
qed

text \<open>
  C7: on a client built from \<open>S \<ge> 1\<close> worker sessions, after any sequence of
  \<open>submitQuery\<close> calls the counter is a number below \<open>S\<close>, and so it indexes a worker
  session.
\<close>

theorem counter_is_valid_index:
  assumes "workerSessions sess \<noteq> []"
  shows "\<exists>k. counter (after_calls batches (new_DbClient sess)) = Num k \<and>
             k < length (workerSessions sess) \<and>
             js_index (workerSessions (appSession (after_calls batches (new_DbClient sess))))
                      (counter (after_calls batches (new_DbClient sess)))
               = Some (workerSessions sess ! k)"
proof -
  have "0 < length (workerSessions sess)" using assms by simp
  then have "length batches mod length (workerSessions sess) < length (workerSessions sess)"
    by simp
  then show ?thesis
    by (simp add: counter_after_new [OF assms] after_calls_frame new_DbClient_fields)
qed

theorem counter_is_valid_index_witness:
  "workerSessions abc \<noteq> [] \<and>
   counter (after_calls [ [''a''], [], [''b'', ''c''], [''d''] ] (new_DbClient abc)) = Num 1"
proof -
  have ne: "workerSessions abc \<noteq> []" by (simp add: abc_def)
  have ev: "counter (after_calls [ [''a''], [], [''b'', ''c''], [''d''] ] (new_DbClient abc)) = Num 1"
    by (simp add: after_calls_def submitQuery_def nextNodeIndex_def new_DbClient_def abc_def
          Let_def)
  show ?thesis
    using ne ev counter_is_valid_index [OF ne, of "[ [''a''], [], [''b'', ''c''], [''d''] ]"]
    by simp
qed

text \<open>
  C10: a call of \<open>submitQuery\<close> with no query returns no pending result and still
  advances the counter by one modulo the size.
\<close>

theorem empty_batch_advances_counter:
  assumes "counter c = Num k" and "0 < size_n c"
  shows "submitQuery [] c = (Inr [], c\<lparr>counter := Num ((k + 1) mod size_n c)\<rparr>)"
  using assms
  by (simp add: submitQuery_def nextNodeIndex_def Let_def split: option.splits)

theorem empty_batch_advances_counter_witness:
  "counter (new_DbClient abc) = Num 0 \<and> 0 < size_n (new_DbClient abc) \<and>
   fst (submitQuery [] (new_DbClient abc)) = Inr [] \<and>
   counter (snd (submitQuery [] (new_DbClient abc))) = Num 1"
proof -
  have c: "counter (new_DbClient abc) = Num 0" and s: "0 < size_n (new_DbClient abc)"
    by (simp_all add: new_DbClient_def abc_def)
  show ?thesis
    using c s empty_batch_advances_counter [OF c s]
    by (simp add: new_DbClient_def abc_def)
qed

section \<open>Status of all nodes\<close>

lemma first_rejected_None:
  "first_rejected ps = None \<longleftrightarrow> (\<forall>t e. Rejected t e \<notin> set ps)"
proof (induction ps rule: first_rejected.induct)
  case 1
  then show ?case by simp
next
  case (2 t e ps)
  then show ?case by (auto split: option.splits)
next
  case (3 t v ps)
  then show ?case by simp
next
  case (4 ps)
  then show ?case by simp
qed

lemma first_rejected_Some:
  "first_rejected ps = Some (t, e) \<Longrightarrow>
     Rejected t e \<in> set ps \<and> (\<forall>t' e'. Rejected t' e' \<in> set ps \<longrightarrow> t \<le> t')"
proof (induction ps arbitrary: t e rule: first_rejected.induct)
  case 1
  then show ?case by simp
next
  case (2 u d ps)
  show ?case
  proof (cases "first_rejected ps")
    case None
    with 2 show ?thesis by (auto simp: first_rejected_None)
  next
    case (Some p)
    obtain t' e' where p: "p = (t', e')" by (cases p)
    from 2(1) [of t' e'] Some p
    have ih: "Rejected t' e' \<in> set ps" "\<forall>t'' e''. Rejected t'' e'' \<in> set ps \<longrightarrow> t' \<le> t''"
      by simp_all
    from 2(2) Some p have "(t, e) = (if t' < u then (t', e') else (u, d))"
      by (simp split: if_splits)
    with ih show ?thesis by (fastforce split: if_splits)
  qed
next
  case (3 u v ps)
  then show ?case by simp
next
  case (4 ps)
  then show ?case by simp
qed

lemma all_fulfilled_Some:
  "all_fulfilled ps = Some (t, vs) \<Longrightarrow>
     length vs = length ps \<and> (\<forall>i < length ps. \<exists>ti. ps ! i = Fulfilled ti (vs ! i))"
proof (induction ps arbitrary: t vs rule: all_fulfilled.induct)
  case 1
  then show ?case by simp
next
  case (2 u v ps)
  then obtain t' vs' where rest: "all_fulfilled ps = Some (t', vs')" and vs: "vs = v # vs'"
    by (auto split: option.splits)
  from 2(1) [OF rest] have ih: "length vs' = length ps"
    "\<forall>i < length ps. \<exists>ti. ps ! i = Fulfilled ti (vs' ! i)"
    by simp_all
  show ?case
  proof (intro conjI allI impI)
    show "length vs = length (Fulfilled u v # ps)" using ih vs by simp
  next
    fix i assume "i < length (Fulfilled u v # ps)"
    then show "\<exists>ti. (Fulfilled u v # ps) ! i = Fulfilled ti (vs ! i)"
      using ih vs by (cases i) simp_all
  qed
next
  case (3 u e ps)
  then show ?case by simp
next
  case (4 ps)
  then show ?case by simp
qed

lemma all_fulfilled_total:
  "\<forall>p \<in> set ps. \<exists>t v. p = Fulfilled t v \<Longrightarrow> \<exists>t vs. all_fulfilled ps = Some (t, vs)"
  by (induction ps) auto

lemma promise_all_Fulfilled:
  "promise_all ps = Fulfilled t vs \<Longrightarrow>
     length vs = length ps \<and> (\<forall>i < length ps. \<exists>ti. ps ! i = Fulfilled ti (vs ! i))"
  by (rule all_fulfilled_Some [of ps t vs])
     (simp add: promise_all_def split: option.splits prod.splits)

lemma promise_all_total:
  assumes "\<forall>p \<in> set ps. \<exists>t v. p = Fulfilled t v"
  shows "\<exists>t vs. promise_all ps = Fulfilled t vs"
proof -
  from assms have "\<forall>t e. Rejected t e \<notin> set ps" by auto
  then have "first_rejected ps = None" by (simp add: first_rejected_None)
  with all_fulfilled_total [OF assms] show ?thesis
    by (auto simp: promise_all_def)
qed

lemma promise_all_Rejected:
  assumes "Rejected u d \<in> set ps"
  shows "\<exists>t e. promise_all ps = Rejected t e \<and> Rejected t e \<in> set ps \<and>
               (\<forall>t' e'. Rejected t' e' \<in> set ps \<longrightarrow> t \<le> t')"
proof -
  from assms have "first_rejected ps \<noteq> None" by (auto simp: first_rejected_None)
  then obtain t e where fr: "first_rejected ps = Some (t, e)" by auto
  from first_rejected_Some [OF fr] fr show ?thesis
    by (simp add: promise_all_def)
qed

text \<open>
  C2, as the specification states it: when the request to \<open>B\<close> fails and the requests to
  \<open>A\<close> and \<open>C\<close> succeed, \<open>status\<close> still returns one entry per node. The code gathers the
  requests with \<open>Promise.all\<close>: on this input the call as a whole is rejected with the
  error of \<open>B\<close>, and the answers of \<open>A\<close> and \<open>C\<close> are not returned.
\<close>

theorem status_rejected_when_B_fails:
  "status b_down ''1'' (new_DbClient abc) = Rejected 2 (Rejection ''unreachable'')"
  by (simp add: status_def promise_all_def b_down_def new_DbClient_def abc_def)

text \<open>
  C2, amended: \<open>status\<close> issues one request per node, in the order of the Session Set.
  When it is fulfilled, its value has exactly one entry per node, in that order, each
  the answer of that node's request; it is fulfilled whenever every request is. When
  the request of some node fails, the whole call fails, with the error of the request
  that failed first, and no answer is returned.
\<close>

theorem status_all_or_nothing:
  "(status gws appId c = Fulfilled t r \<longrightarrow>
      length r = length (workerSessions (appSession c)) \<and>
      (\<forall>i < length (workerSessions (appSession c)).
         \<exists>ti. gws (node (workerSessions (appSession c) ! i)) appId = Fulfilled ti (r ! i))) \<and>
   ((\<forall>w \<in> set (workerSessions (appSession c)). \<exists>ti v. gws (node w) appId = Fulfilled ti v)
      \<longrightarrow> (\<exists>t' r'. status gws appId c = Fulfilled t' r')) \<and>
   ((\<exists>w \<in> set (workerSessions (appSession c)). \<exists>ti e. gws (node w) appId = Rejected ti e)
      \<longrightarrow> (\<exists>t' e'. status gws appId c = Rejected t' e' \<and>
            (\<exists>w \<in> set (workerSessions (appSession c)). gws (node w) appId = Rejected t' e') \<and>
            (\<forall>w \<in> set (workerSessions (appSession c)). \<forall>ti e.
               gws (node w) appId = Rejected ti e \<longrightarrow> t' \<le> ti)))"
proof (intro conjI impI)
  let ?ws = "workerSessions (appSession c)"
  let ?ps = "map (\<lambda>session. gws (node session) appId) ?ws"
  {
    assume "status gws appId c = Fulfilled t r"
    then have "promise_all ?ps = Fulfilled t r" by (simp add: status_def)
    from promise_all_Fulfilled [OF this]
    show "length r = length ?ws"
      and "\<forall>i < length ?ws. \<exists>ti. gws (node (?ws ! i)) appId = Fulfilled ti (r ! i)"
      by simp_all
  }
  {
    assume "\<forall>w \<in> set ?ws. \<exists>ti v. gws (node w) appId = Fulfilled ti v"
    then have "\<forall>p \<in> set ?ps. \<exists>t v. p = Fulfilled t v" by auto
    from promise_all_total [OF this]
    show "\<exists>t' r'. status gws appId c = Fulfilled t' r'" by (simp add: status_def)
  }
  {
    assume "\<exists>w \<in> set ?ws. \<exists>ti e. gws (node w) appId = Rejected ti e"
    then obtain w ti e where "w \<in> set ?ws" "gws (node w) appId = Rejected ti e" by blast
    then have "Rejected ti e \<in> set ?ps" by force
    from promise_all_Rejected [OF this]
    obtain t' e' where r: "promise_all ?ps = Rejected t' e'" "Rejected t' e' \<in> set ?ps"
      "\<forall>u d. Rejected u d \<in> set ?ps \<longrightarrow> t' \<le> u"
      by blast
    from r(2) have "\<exists>w \<in> set ?ws. gws (node w) appId = Rejected t' e'" by auto
    moreover from r(3) have "\<forall>w \<in> set ?ws. \<forall>ti e. gws (node w) appId = Rejected ti e \<longrightarrow> t' \<le> ti"
      by force
    ultimately
    show "\<exists>t' e'. status gws appId c = Rejected t' e' \<and>
            (\<exists>w \<in> set ?ws. gws (node w) appId = Rejected t' e') \<and>
            (\<forall>w \<in> set ?ws. \<forall>ti e. gws (node w) appId = Rejected ti e \<longrightarrow> t' \<le> ti)"
      using r(1) by (auto simp: status_def)
  }
qed

theorem status_all_or_nothing_witness:
  "status all_up ''1'' (new_DbClient abc) = Fulfilled 3 [answer ''A'', answer ''B'', answer ''C''] \<and>
   length [answer ''A'', answer ''B'', answer ''C''] = length (workerSessions abc) \<and>
   (\<exists>w \<in> set (workerSessions abc). \<exists>ti e. b_down (node w) ''1'' = Rejected ti e) \<and>
   (\<exists>t' e'. status b_down ''1'' (new_DbClient abc) = Rejected t' e')"
proof -
  have up: "status all_up ''1'' (new_DbClient abc)
      = Fulfilled 3 [answer ''A'', answer ''B'', answer ''C'']"
    by (simp add: status_def promise_all_def all_up_def new_DbClient_def abc_def)
  have down: "\<exists>w \<in> set (workerSessions abc). \<exists>ti e. b_down (node w) ''1'' = Rejected ti e"
    by (simp add: b_down_def abc_def)
  show ?thesis
    using up down
      status_all_or_nothing [of all_up "''1''" "new_DbClient abc" 3
        "[answer ''A'', answer ''B'', answer ''C'']"]
      status_all_or_nothing [of b_down "''1''" "new_DbClient abc" 0 "[]"]
    by (auto simp: new_DbClient_fields)
qed

section \<open>Polling\<close>

lemma run_Nil: "run [] s = s"
  by (simp add: run_def)

lemma run_Cons: "run (e # es) s = run es (step e s)"
  by (simp add: run_def)

lemma run_snoc: "run (es @ [e]) s = step e (run es s)"
  by (simp add: run_def)

lemma updateStatus_frame:
  "intervals (updateStatus s) = intervals s"
  "timer (updateStatus s) = timer s"
  "updateStatusBtn (updateStatus s) = updateStatusBtn s"
  "client (updateStatus s) = client s"
  by (simp_all add: updateStatus_def)

lemma status_settled_frame:
  "intervals (status_settled outcome s) = intervals s"
  "timer (status_settled outcome s) = timer s"
  "updateStatusBtn (status_settled outcome s) = updateStatusBtn s"
  "client (status_settled outcome s) = client s"
  "status_calls (status_settled outcome s) = status_calls s"
  by (simp_all add: status_settled_def status_then_def status_catch_def status_finally_def
        Let_def split: sum.splits)

lemma click_btn_frame:
  "intervals (click_btn s) = intervals s"
  "timer (click_btn s) = timer s"
  "updateStatusBtn (click_btn s) = updateStatusBtn s"
  "status_calls (click_btn s) = status_calls s"
  "updating (click_btn s) = updating s"
  "polls (click_btn s) = polls s"
  "statusField (click_btn s) = statusField s"
  by (simp_all add: click_btn_def submitQueries_def Let_def split: sum.splits prod.splits)

lemma result_settled_frame:
  "intervals (result_settled k outcome s) = intervals s"
  "timer (result_settled k outcome s) = timer s"
  "updateStatusBtn (result_settled k outcome s) = updateStatusBtn s"
  "client (result_settled k outcome s) = client s"
  "status_calls (result_settled k outcome s) = status_calls s"
  "updating (result_settled k outcome s) = updating s"
  "polls (result_settled k outcome s) = polls s"
  "statusField (result_settled k outcome s) = statusField s"
  by (simp_all add: result_settled_def result_then_def Let_def split: sum.splits)

lemma click_updateStatusBtn_frame:
  "status_calls (click_updateStatusBtn s) = status_calls s"
  "updating (click_updateStatusBtn s) = updating s"
  "polls (click_updateStatusBtn s) = polls s"
  "statusField (click_updateStatusBtn s) = statusField s"
  "client (click_updateStatusBtn s) = client s"
  by (simp_all add: click_updateStatusBtn_def clearInterval_def setInterval_def
        split: prod.splits)

text \<open>What the settlement of a poll does to the flag and to the panel.\<close>

lemma status_settled_clears_flag:
  "0 < polls s \<Longrightarrow> \<not> updating (status_settled outcome s)"
  by (simp add: status_settled_def status_then_def status_catch_def status_finally_def
        Let_def split: sum.splits)

lemma map_raising_length: "map_raising f xs = Inr ys \<Longrightarrow> length ys = length xs"
  by (induction xs arbitrary: ys) (auto split: sum.splits)

lemma status_settled_success:
  assumes "0 < polls s" and "map_raising status_block r = Inr blocks"
  shows "statusField (status_settled (Inr r) s) = join lf blocks \<and> length blocks = length r"
  using assms map_raising_length [of status_block r blocks]
  by (simp add: status_settled_def status_then_def status_finally_def Let_def)

lemma status_settled_failure:
  "statusField (status_settled (Inl e) s) = statusField s"
  by (simp add: status_settled_def status_catch_def status_finally_def Let_def)

lemma status_settled_raise:
  "map_raising status_block r = Inl e \<Longrightarrow>
     statusField (status_settled (Inr r) s) = statusField s"
  by (simp add: status_settled_def status_then_def status_catch_def status_finally_def Let_def)

text \<open>
  C3: when the \<open>status\<close> call of a poll fails, the specification has the panel updated
  with a single error block. The code builds that block in the \<open>catch\<close> callback and
  drops it: after a tick and the rejection of its poll the flag is cleared, but the
  panel still holds what it held before, which is not the error block.
\<close>

theorem failed_poll_leaves_panel_unchanged:
  "statusField (run [Tick 1, StatusSettled (Inl (Rejection ''unreachable''))]
                  (preparePage abc doc0)) = ''connecting'' \<and>
   statusField (run [Tick 1, StatusSettled (Inl (Rejection ''unreachable''))]
                  (preparePage abc doc0)) \<noteq> genErrorStatus [] ''unreachable'' \<and>
   updating (run [Tick 1] (preparePage abc doc0)) \<and>
   \<not> updating (run [Tick 1, StatusSettled (Inl (Rejection ''unreachable''))]
                  (preparePage abc doc0))"
  by (simp add: run_def preparePage_def setInterval_def doc0_def updateStatus_def status_settled_def
        status_catch_def status_finally_def genErrorStatus_def Let_def)

text \<open>
  While a poll has not settled the flag stays set whatever else happens, and no call of
  \<open>status\<close> is made.
\<close>

lemma step_while_updating:
  assumes "updating s" and "\<not> is_status_settled e"
  shows "updating (step e s) \<and> status_calls (step e s) = status_calls s"
  using assms
  by (cases e)
     (simp_all add: updateStatus_def click_btn_frame result_settled_frame
        click_updateStatusBtn_frame)

lemma run_while_updating:
  assumes "updating s" and "\<not> list_ex is_status_settled es"
  shows "updating (run es s) \<and> status_calls (run es s) = status_calls s"
  using assms
proof (induction es arbitrary: s)
  case Nil
  then show ?case by (simp add: run_Nil)
next
  case (Cons e es)
  from Cons.prems have e: "\<not> is_status_settled e" and es: "\<not> list_ex is_status_settled es"
    by simp_all
  from step_while_updating [OF Cons.prems(1) e]
  have u: "updating (step e s)" and c: "status_calls (step e s) = status_calls s"
    by simp_all
  from Cons.IH [OF u es] c show ?case by (simp add: run_Cons)
qed

lemma tick_while_updating: "updating s \<Longrightarrow> step (Tick t) s = s"
  by (simp add: updateStatus_def)

text \<open>
  C4: a tick that fires while the flag is set changes nothing, and as long as the poll
  has not settled no sequence of events makes a call of \<open>status\<close>. When two ticks of an
  armed timer fire before the first poll settles, the first makes one call of \<open>status\<close>
  and the second changes nothing.
\<close>

theorem guarded_polling:
  "(updating s \<longrightarrow> step (Tick t) s = s) \<and>
   (updating s \<and> \<not> list_ex is_status_settled es \<longrightarrow>
      status_calls (run es s) = status_calls s) \<and>
   (\<not> updating s \<and> t1 \<in> set (intervals s) \<longrightarrow>
      status_calls (step (Tick t1) s) = Suc (status_calls s) \<and>
      step (Tick t2) (step (Tick t1) s) = step (Tick t1) s \<and>
      status_calls (run [Tick t1, Tick t2] s) = Suc (status_calls s))"
proof (intro conjI impI)
  assume "updating s"
  then show "step (Tick t) s = s" by (simp add: updateStatus_def)
next
  assume "updating s \<and> \<not> list_ex is_status_settled es"
  then show "status_calls (run es s) = status_calls s"
    using run_while_updating [of s es] by simp
next
  assume a: "\<not> updating s \<and> t1 \<in> set (intervals s)"
  then show "status_calls (step (Tick t1) s) = Suc (status_calls s)"
    by (simp add: updateStatus_def)
  from a have u: "updating (step (Tick t1) s)" by (simp add: updateStatus_def)
  then show second: "step (Tick t2) (step (Tick t1) s) = step (Tick t1) s"
    by (rule tick_while_updating)
  from a second show "status_calls (run [Tick t1, Tick t2] s) = Suc (status_calls s)"
    by (simp add: run_def updateStatus_def)
qed

theorem guarded_polling_witness:
  "\<not> updating (preparePage abc doc0) \<and> 1 \<in> set (intervals (preparePage abc doc0)) \<and>
   updating (step (Tick 1) (preparePage abc doc0)) \<and>
   \<not> list_ex is_status_settled [Tick 1, ClickToggle, ClickToggle, Tick 2] \<and>
   status_calls (run [Tick 1, Tick 1] (preparePage abc doc0)) = 1 \<and>
   status_calls (run [Tick 1, ClickToggle, ClickToggle, Tick 2]
                   (step (Tick 1) (preparePage abc doc0))) = 1"
proof -
  have a: "\<not> updating (preparePage abc doc0)" "1 \<in> set (intervals (preparePage abc doc0))"
    by (simp_all add: preparePage_def setInterval_def)
  have b: "updating (step (Tick 1) (preparePage abc doc0))"
    "status_calls (step (Tick 1) (preparePage abc doc0)) = 1"
    by (simp_all add: preparePage_def setInterval_def updateStatus_def)
  show ?thesis
    using a b
      guarded_polling [of "preparePage abc doc0" 1 "[]" 1 1]
      guarded_polling [of "step (Tick 1) (preparePage abc doc0)" 0
                          "[Tick 1, ClickToggle, ClickToggle, Tick 2]" 0 0]
    by simp
qed

section \<open>Stopping the poll\<close>

lemma step_timer_ok:
  assumes "timer_ok s"
  shows "timer_ok (step e s)"
proof (cases e)
  case (Tick t)
  with assms show ?thesis by (simp add: timer_ok_def updateStatus_frame)
next
  case (StatusSettled outcome)
  with assms show ?thesis by (simp add: timer_ok_def status_settled_frame)
next
  case (Typed v)
  with assms show ?thesis by (simp add: timer_ok_def)
next
  case ClickSubmit
  with assms show ?thesis by (simp add: timer_ok_def click_btn_frame)
next
  case (ResultSettled k outcome)
  with assms show ?thesis by (simp add: timer_ok_def result_settled_frame)
next
  case ClickToggle
  with assms show ?thesis
    by (simp add: timer_ok_def click_updateStatusBtn_def clearInterval_def setInterval_def
          stop_def start_def)
qed

lemma run_timer_ok: "timer_ok s \<Longrightarrow> timer_ok (run es s)"
  by (induction es arbitrary: s) (simp_all add: run_Nil run_Cons step_timer_ok)

lemma preparePage_timer_ok: "updateStatusBtn d = stop \<Longrightarrow> timer_ok (preparePage sess d)"
  by (simp add: timer_ok_def preparePage_def setInterval_def)

lemma step_no_timer:
  assumes "intervals s = []" and "\<not> is_toggle e"
  shows "intervals (step e s) = [] \<and> status_calls (step e s) = status_calls s"
  using assms
  by (cases e) (simp_all add: status_settled_frame click_btn_frame result_settled_frame)

lemma run_no_timer:
  assumes "intervals s = []" and "\<not> list_ex is_toggle es"
  shows "intervals (run es s) = [] \<and> status_calls (run es s) = status_calls s"
  using assms
proof (induction es arbitrary: s)
  case Nil
  then show ?case by (simp add: run_Nil)
next
  case (Cons e es)
  from Cons.prems have e: "\<not> is_toggle e" and es: "\<not> list_ex is_toggle es"
    by simp_all
  from step_no_timer [OF Cons.prems(1) e]
  have i: "intervals (step e s) = []" and c: "status_calls (step e s) = status_calls s"
    by simp_all
  from Cons.IH [OF i es] c show ?case by (simp add: run_Cons)
qed

text \<open>
  C6: on a page whose polling button offered to stop when the page was prepared, a
  click on the button while it offers to stop leaves no timer armed, and from then on
  no sequence of events without another click on the button makes a call of \<open>status\<close>.
  The click touches neither the outstanding poll nor the flag, and when a poll that was
  outstanding at the click is fulfilled afterwards, with answers that the page can
  read, the panel is set to their blocks.
\<close>

theorem toggle_off_keeps_poll_in_flight:
  assumes "updateStatusBtn d = stop"
    and "s = run es0 (preparePage sess d)"
    and "updateStatusBtn s = stop"
  shows "intervals (step ClickToggle s) = [] \<and>
         (\<not> list_ex is_toggle es \<longrightarrow>
            status_calls (run es (step ClickToggle s)) = status_calls s) \<and>
         polls (step ClickToggle s) = polls s \<and>
         updating (step ClickToggle s) = updating s \<and>
         (0 < polls s \<and> map_raising status_block r = Inr blocks \<longrightarrow>
            statusField (step (StatusSettled (Inr r)) (step ClickToggle s)) = join lf blocks \<and>
            length blocks = length r)"
proof -
  let ?s' = "step ClickToggle s"
  have "timer_ok s"
    using assms(1,2) by (simp add: run_timer_ok preparePage_timer_ok)
  with assms(3) have armed: "intervals s = [timer s]"
    by (simp add: timer_ok_def)
  have off: "intervals ?s' = []"
    using assms(3) armed by (simp add: click_updateStatusBtn_def clearInterval_def)
  have same: "status_calls ?s' = status_calls s" "polls ?s' = polls s"
    "updating ?s' = updating s"
    by (simp_all add: click_updateStatusBtn_frame)
  have quiet: "\<not> list_ex is_toggle es \<longrightarrow> status_calls (run es ?s') = status_calls s"
    using run_no_timer [OF off, of es] same(1) by simp
  have lands: "0 < polls s \<and> map_raising status_block r = Inr blocks \<longrightarrow>
      statusField (step (StatusSettled (Inr r)) ?s') = join lf blocks \<and> length blocks = length r"
    using status_settled_success [of ?s' r blocks] same(2) by simp
  from off quiet same(2,3) lands show ?thesis by blast
qed

theorem toggle_off_keeps_poll_in_flight_witness:
  "updateStatusBtn doc0 = stop \<and>
   updateStatusBtn (run [Tick 1] (preparePage abc doc0)) = stop \<and>
   polls (run [Tick 1] (preparePage abc doc0)) = 1 \<and>
   \<not> list_ex is_toggle [Tick 1, Tick 2, Typed ''select 1''] \<and>
   map_raising status_block [answer ''A''] = Inr [genStatus
       \<lparr> addr = ''A'', block_hash = ''0123456789...6789ABCDEF'', app_hash = ''AB...AB'',
         block_height = 42 \<rparr>] \<and>
   intervals (step ClickToggle (run [Tick 1] (preparePage abc doc0))) = [] \<and>
   status_calls (run [Tick 1, Tick 2, Typed ''select 1'']
                  (step ClickToggle (run [Tick 1] (preparePage abc doc0)))) = 1 \<and>
   statusField (step (StatusSettled (Inr [answer ''A'']))
                  (step ClickToggle (run [Tick 1] (preparePage abc doc0))))
     = join lf [genStatus
         \<lparr> addr = ''A'', block_hash = ''0123456789...6789ABCDEF'', app_hash = ''AB...AB'',
           block_height = 42 \<rparr>]"
proof -
  let ?s = "run [Tick 1] (preparePage abc doc0)"
  have d: "updateStatusBtn doc0 = stop" by (simp add: doc0_def)
  have b: "updateStatusBtn ?s = stop"
    by (simp add: run_def preparePage_def setInterval_def doc0_def updateStatus_def)
  have p: "polls ?s = 1" "status_calls ?s = 1"
    by (simp_all add: run_def preparePage_def setInterval_def updateStatus_def)
  have m: "map_raising status_block [answer ''A''] = Inr [genStatus
       \<lparr> addr = ''A'', block_hash = ''0123456789...6789ABCDEF'', app_hash = ''AB...AB'',
         block_height = 42 \<rparr>]"
    by (simp add: status_block_def answer_def shorten_def)
  show ?thesis
    using d b p m
      toggle_off_keeps_poll_in_flight [OF d refl b,
        of "[Tick 1, Tick 2, Typed ''select 1'']" "[answer ''A'']" "[genStatus
       \<lparr> addr = ''A'', block_hash = ''0123456789...6789ABCDEF'', app_hash = ''AB...AB'',
         block_height = 42 \<rparr>]"]
    by simp
qed

section \<open>Submitting queries\<close>

lemma submitQuery_client_ok:
  assumes "client_ok c"
  shows "client_ok (snd (submitQuery queries c))"
proof -
  from assms obtain k where k: "counter c = Num k" "k < size_n c"
    and sz: "size_n c = length (workerSessions (appSession c))"
    by (auto simp: client_ok_def split: number.splits)
  from k have pos: "0 < size_n c" by simp
  from submitQuery_routes [OF sz k(1) pos, of queries] sz pos show ?thesis
    by (simp add: client_ok_def)
qed

lemma submitQuery_one_step:
  assumes "client_ok c"
  shows "\<exists>prs c'. submitQuery queries c = (Inr prs, c') \<and> length prs = length queries"
proof -
  from assms obtain k where k: "counter c = Num k" "k < size_n c"
    and sz: "size_n c = length (workerSessions (appSession c))"
    by (auto simp: client_ok_def split: number.splits)
  from k have pos: "0 < size_n c" by simp
  from submitQuery_routes [OF sz k(1) pos, of queries] show ?thesis by simp
qed

lemma new_DbClient_ok: "workerSessions sess \<noteq> [] \<Longrightarrow> client_ok (new_DbClient sess)"
  by (simp add: client_ok_def new_DbClient_def)

lemma click_btn_client:
  "client (click_btn s) =
     (if inputField s = [] then client s
      else snd (submitQuery (split (CHR 0x0A) (inputField s)) (client s)))"
  by (simp add: click_btn_def submitQueries_def Let_def split: sum.splits prod.splits)

lemma step_client_ok:
  assumes "client_ok (client s)"
  shows "client_ok (client (step e s))"
  using assms
  by (cases e)
     (simp_all add: updateStatus_def status_settled_frame result_settled_frame
        click_updateStatusBtn_frame click_btn_client submitQuery_client_ok)

lemma run_client_ok: "client_ok (client s) \<Longrightarrow> client_ok (client (run es s))"
  by (induction es arbitrary: s) (simp_all add: run_Nil run_Cons step_client_ok)

lemma preparePage_client_ok:
  "workerSessions sess \<noteq> [] \<Longrightarrow> client_ok (client (preparePage sess d))"
  by (simp add: preparePage_def setInterval_def new_DbClient_ok)

lemma split_length: "0 < length (split c str)"
  by (induction str) (auto split: list.splits)

text \<open>What a submission does to the result panel: it empties it.\<close>

lemma submission_empties_panel:
  "inputField s \<noteq> [] \<Longrightarrow> resultField (click_btn s) = []"
  by (simp add: click_btn_def submitQueries_def Let_def split: sum.splits prod.splits)

text \<open>
  C8: on a page prepared on a non-empty Session Set, a click on the submit button with
  a non-empty input passes the lines of the input to \<open>submitQuery\<close>, attaches the callback
  to each pending result returned, one per line, and leaves the input empty while these
  results are all still outstanding. Whenever an outstanding result is fulfilled, the
  result panel becomes what it held followed by the result between two delimiters.
\<close>

theorem submission_appends_results:
  assumes "workerSessions sess \<noteq> []"
    and "s = run es0 (preparePage sess d)"
    and "inputField s \<noteq> []"
    and "s' = run es (step ClickSubmit s)"
  shows "(\<exists>prs c'.
            submitQuery (split (CHR 0x0A) (inputField s)) (client s) = (Inr prs, c') \<and>
            length prs = length (split (CHR 0x0A) (inputField s)) \<and>
            client (step ClickSubmit s) = c' \<and>
            results (step ClickSubmit s) = results s @ prs \<and>
            inputField (step ClickSubmit s) = []) \<and>
         (k < length (results s') \<longrightarrow>
            resultField (step (ResultSettled k (Inr res)) s')
              = resultField s' @ sep @ newLine @
                replace_first [CHR 0x5C, CHR ''n''] newLine res @ newLine @ sep \<and>
            results (step (ResultSettled k (Inr res)) s')
              = take k (results s') @ drop (Suc k) (results s'))"
proof -
  have ok: "client_ok (client s)"
    using assms(1,2) by (simp add: run_client_ok preparePage_client_ok)
  from submitQuery_one_step [OF ok, of "split (CHR 0x0A) (inputField s)"]
  obtain prs c' where
    sub: "submitQuery (split (CHR 0x0A) (inputField s)) (client s) = (Inr prs, c')"
    and len: "length prs = length (split (CHR 0x0A) (inputField s))"
    by blast
  have click: "client (step ClickSubmit s) = c'"
    "results (step ClickSubmit s) = results s @ prs"
    "inputField (step ClickSubmit s) = []"
    using assms(3) sub by (simp_all add: click_btn_def submitQueries_def Let_def)
  have settle: "k < length (results s') \<longrightarrow>
      resultField (step (ResultSettled k (Inr res)) s')
        = resultField s' @ sep @ newLine @
          replace_first [CHR 0x5C, CHR ''n''] newLine res @ newLine @ sep \<and>
      results (step (ResultSettled k (Inr res)) s')
        = take k (results s') @ drop (Suc k) (results s')"
    by (simp add: result_settled_def result_then_def Let_def)
  from sub len click settle show ?thesis by blast
qed

theorem submission_appends_results_witness:
  "workerSessions abc \<noteq> [] \<and>
   inputField (run [Typed ''q1\<newline>q2''] (preparePage abc doc0)) \<noteq> [] \<and>
   split (CHR 0x0A) ''q1\<newline>q2'' = [''q1'', ''q2''] \<and>
   results (step ClickSubmit (run [Typed ''q1\<newline>q2''] (preparePage abc doc0)))
     = [Invoke ''sB'' ''q1'', Invoke ''sB'' ''q2''] \<and>
   inputField (step ClickSubmit (run [Typed ''q1\<newline>q2''] (preparePage abc doc0))) = [] \<and>
   resultField (run [ResultSettled 1 (Inr ''two''), ResultSettled 0 (Inr ''one'')]
                 (step ClickSubmit (run [Typed ''q1\<newline>q2''] (preparePage abc doc0))))
     = sep @ newLine @ ''two'' @ newLine @ sep @ sep @ newLine @ ''one'' @ newLine @ sep"
proof -
  define s where "s = run [Typed ''q1\<newline>q2''] (preparePage abc doc0)"
  define t where "t = step ClickSubmit s"
  define u where "u = run [ResultSettled 1 (Inr ''two'')] t"
  have ne: "workerSessions abc \<noteq> []" by (simp add: abc_def)
  have inp: "inputField s \<noteq> []" by (simp add: s_def run_def)
  have sp: "split (CHR 0x0A) ''q1\<newline>q2'' = [''q1'', ''q2'']" by simp
  have click: "t =
      (preparePage abc doc0)\<lparr> resultField := [], inputField := [],
        client := (new_DbClient abc)\<lparr>counter := Num 1\<rparr>,
        results := [Invoke ''sB'' ''q1'', Invoke ''sB'' ''q2''] \<rparr>"
    by (simp add: t_def s_def run_def click_btn_def submitQueries_def submitQuery_def
          nextNodeIndex_def preparePage_def setInterval_def new_DbClient_def abc_def Let_def)
  have first: "u =
      (preparePage abc doc0)\<lparr> resultField := sep @ newLine @ ''two'' @ newLine @ sep,
        inputField := [],
        client := (new_DbClient abc)\<lparr>counter := Num 1\<rparr>,
        results := [Invoke ''sB'' ''q1''] \<rparr>"
    by (simp add: u_def click run_def result_settled_def result_then_def preparePage_def setInterval_def Let_def)
  have k: "0 < length (results u)" by (simp add: first)
  have u': "u = run [ResultSettled 1 (Inr ''two'')] (step ClickSubmit s)"
    by (simp add: u_def t_def)
  from submission_appends_results [OF ne s_def inp u', of 0 "''one''"] k
  have "resultField (step (ResultSettled 0 (Inr ''one'')) u)
      = resultField u @ sep @ newLine @
          replace_first [CHR 0x5C, CHR ''n''] newLine ''one'' @ newLine @ sep"
    by blast
  then have "resultField (run [ResultSettled 0 (Inr ''one'')] u)
     = sep @ newLine @ ''two'' @ newLine @ sep @ sep @ newLine @ ''one'' @ newLine @ sep"
    by (simp add: first run_def)
  then have last: "resultField (run [ResultSettled 1 (Inr ''two''), ResultSettled 0 (Inr ''one'')] t)
     = sep @ newLine @ ''two'' @ newLine @ sep @ sep @ newLine @ ''one'' @ newLine @ sep"
    by (simp add: u_def run_def)
  have res: "results t = [Invoke ''sB'' ''q1'', Invoke ''sB'' ''q2'']" "inputField t = []"
    by (simp_all add: click)
  from ne inp sp last res show ?thesis
    unfolding t_def s_def by simp
qed

text \<open>
  C9: a click on the submit button while the input is empty changes nothing: no call
  of \<open>submitQuery\<close> is made, so the counter of the client and the outstanding results are
  as before, and the result panel is as before.
\<close>

theorem empty_input_is_ignored:
  assumes "inputField s = []"
  shows "step ClickSubmit s = s"
  using assms by (simp add: click_btn_def)

theorem empty_input_is_ignored_witness:
  "inputField (preparePage abc doc0) = [] \<and>
   step ClickSubmit (preparePage abc doc0) = preparePage abc doc0 \<and>
   resultField (step ClickSubmit (preparePage abc doc0)) = ''old'' \<and>
   counter (client (step ClickSubmit (preparePage abc doc0))) = Num 0 \<and>
   results (step ClickSubmit (preparePage abc doc0)) = []"
proof -
  have e: "inputField (preparePage abc doc0) = []"
    by (simp add: preparePage_def setInterval_def doc0_def)
  show ?thesis
    using e empty_input_is_ignored [OF e]
    by (simp add: preparePage_def setInterval_def doc0_def new_DbClient_def)
qed

end
